theory Spec2Isabelle
  imports Main
begin

section \<open>The regular-expression library\<close>

text \<open>
  The script \<^verbatim>\<open>scripts/test-template-validation.py\<close> calls \<^verbatim>\<open>re.compile(pattern)\<close> and
  \<^verbatim>\<open>regex.match(test_input)\<close> of Python's standard library. The library is the platform, not
  part of the script. The script itself is embedded with the two library functions as
  parameters (\<open>test_pattern_with\<close> below), so that what is proved of it holds for every
  pattern the library accepts. To evaluate the script on its own four patterns, the library
  is modelled in this section after CPython's \<^verbatim>\<open>re\<close>, for this part of the pattern syntax:
  literal characters; the escapes \<^verbatim>\<open>\d \D \s \S \w \W\<close>, \<^verbatim>\<open>\A \Z \b\<close>,
  \<^verbatim>\<open>\a \f \n \r \t \v\<close> and escaped punctuation; \<^verbatim>\<open>.\<close>; character sets with ranges,
  negation and escapes; the anchors \<^verbatim>\<open>^\<close> and \<^verbatim>\<open>$\<close>; groups \<^verbatim>\<open>(...)\<close> and \<^verbatim>\<open>(?:...)\<close>;
  alternation; the repetitions \<^verbatim>\<open>?\<close>, \<^verbatim>\<open>*\<close>, \<^verbatim>\<open>+\<close>, \<^verbatim>\<open>{m}\<close>, \<^verbatim>\<open>{m,}\<close>, \<^verbatim>\<open>{,n}\<close>,
  \<^verbatim>\<open>{m,n}\<close>, greedy and lazy; a brace that is no repetition, read as a literal.

  Python strings are sequences of code points. Pattern and input strings are modelled as
  \<^typ>\<open>string\<close>, that is with code points below 256; the character categories are those of
  Unicode on these code points. No flag is passed to \<^verbatim>\<open>re.compile\<close>, so \<^verbatim>\<open>^\<close> matches at
  position 0 only and \<^verbatim>\<open>$\<close> matches at the end of the string and just before a
  newline that ends it.
\<close>

subsection \<open>Compiled patterns\<close>

text \<open>
  The constructors follow the node kinds of CPython's pattern parser: \<open>In\<close> is a set of
  characters given by inclusive ranges (possibly negated), a literal is the one-range set.
\<close>

datatype regex =
    In bool "(char \<times> char) list"
  | At_Beginning
  | At_End
  | At_End_String
  | At_Boundary
  | Empty
  | Seq regex regex
  | Branch regex regex
  | Subpattern regex
  | Max_Repeat nat "nat option" regex
  | Min_Repeat nat "nat option" regex

definition in_range :: "char \<Rightarrow> char \<times> char \<Rightarrow> bool" where
  "in_range c r = ((of_char (fst r) :: nat) \<le> of_char c \<and> (of_char c :: nat) \<le> of_char (snd r))"

definition in_set :: "bool \<Rightarrow> (char \<times> char) list \<Rightarrow> char \<Rightarrow> bool" where
  "in_set negate ranges c = (list_ex (in_range c) ranges \<noteq> negate)"

definition literal :: "char \<Rightarrow> regex" where
  "literal c = In False [(c, c)]"

definition digit :: regex where
  "digit = In False [(CHR ''0'', CHR ''9'')]"

definition any_char :: regex where
  "any_char = In True [(CHR 0x0A, CHR 0x0A)]"

text \<open>
  The categories \<^verbatim>\<open>\D\<close>, \<^verbatim>\<open>\s\<close>, \<^verbatim>\<open>\S\<close>, \<^verbatim>\<open>\w\<close> and \<^verbatim>\<open>\W\<close> on the code points
  below 256: decimal digits, Unicode white space, and alphanumeric characters with the
  underscore.
\<close>

definition not_digit_ranges :: "(char \<times> char) list" where
  "not_digit_ranges = [(CHR 0x00, CHR 0x2F), (CHR 0x3A, CHR 0xFF)]"

definition space_ranges :: "(char \<times> char) list" where
  "space_ranges =
     [(CHR 0x09, CHR 0x0D), (CHR 0x1C, CHR 0x20), (CHR 0x85, CHR 0x85), (CHR 0xA0, CHR 0xA0)]"

definition not_space_ranges :: "(char \<times> char) list" where
  "not_space_ranges =
     [(CHR 0x00, CHR 0x08), (CHR 0x0E, CHR 0x1B), (CHR 0x21, CHR 0x84), (CHR 0x86, CHR 0x9F),
      (CHR 0xA1, CHR 0xFF)]"

definition word_ranges :: "(char \<times> char) list" where
  "word_ranges =
     [(CHR 0x30, CHR 0x39), (CHR 0x41, CHR 0x5A), (CHR 0x5F, CHR 0x5F), (CHR 0x61, CHR 0x7A),
      (CHR 0xAA, CHR 0xAA), (CHR 0xB2, CHR 0xB3), (CHR 0xB5, CHR 0xB5), (CHR 0xB9, CHR 0xBA),
      (CHR 0xBC, CHR 0xBE), (CHR 0xC0, CHR 0xD6), (CHR 0xD8, CHR 0xF6), (CHR 0xF8, CHR 0xFF)]"

definition not_word_ranges :: "(char \<times> char) list" where
  "not_word_ranges =
     [(CHR 0x00, CHR 0x2F), (CHR 0x3A, CHR 0x40), (CHR 0x5B, CHR 0x5E), (CHR 0x60, CHR 0x60),
      (CHR 0x7B, CHR 0xA9), (CHR 0xAB, CHR 0xB1), (CHR 0xB4, CHR 0xB4), (CHR 0xB6, CHR 0xB8),
      (CHR 0xBB, CHR 0xBB), (CHR 0xBF, CHR 0xBF), (CHR 0xD7, CHR 0xD7), (CHR 0xF7, CHR 0xF7)]"

definition is_word :: "char \<Rightarrow> bool" where
  "is_word c = list_ex (in_range c) word_ranges"

subsection \<open>Matching\<close>

text \<open>
  \<open>ends r s i\<close> lists the positions at which a match of \<open>r\<close> that starts at position
  \<open>i\<close> of \<open>s\<close> can end, for the greedy operators in the order a backtracking matcher
  tries them: more iterations come first.
\<close>

fun times :: "(nat \<Rightarrow> nat list) \<Rightarrow> nat \<Rightarrow> nat \<Rightarrow> nat list" where
  "times f 0 i = [i]"
| "times f (Suc m) i = concat (map (times f m) (f i))"

fun at_most :: "(nat \<Rightarrow> nat list) \<Rightarrow> nat \<Rightarrow> nat \<Rightarrow> nat list" where
  "at_most f 0 i = [i]"
| "at_most f (Suc k) i = concat (map (at_most f k) (f i)) @ [i]"

text \<open>
  Unbounded repetition. An iteration that consumes nothing ends where it began, so only
  iterations that advance are followed; \<open>n\<close> is the length of the string.
\<close>

function star :: "(nat \<Rightarrow> nat list) \<Rightarrow> nat \<Rightarrow> nat \<Rightarrow> nat list" where
  "star f n i = concat (map (star f n) (filter (\<lambda>j. i < j \<and> j \<le> n) (f i))) @ [i]"
  by pat_completeness auto
termination
  by (relation "measure (\<lambda>(f, n, i). n - i)") auto

declare star.simps [simp del]

text \<open>
  Between \<open>m\<close> and \<open>n\<close> iterations of a pattern whose matches \<open>f\<close> lists (any number
  from \<open>m\<close> on when \<open>n\<close> is \<open>None\<close>), in a string of length \<open>len\<close>.
\<close>

definition repeat_ends ::
  "(nat \<Rightarrow> nat list) \<Rightarrow> nat \<Rightarrow> nat \<Rightarrow> nat option \<Rightarrow> nat \<Rightarrow> nat list" where
  "repeat_ends f len m n i =
     (case n of
        None \<Rightarrow> concat (map (star f len) (times f m i))
      | Some n' \<Rightarrow>
          if n' < m then []
          else concat (map (at_most f (n' - m)) (times f m i)))"

text \<open>
  A lazy repetition prefers fewer iterations. Which match is preferred plays no role in
  whether there is one, so its end positions are listed as for the greedy repetition.
\<close>

primrec ends :: "regex \<Rightarrow> string \<Rightarrow> nat \<Rightarrow> nat list" where
  "ends (In negate ranges) s i =
     (if i < length s \<and> in_set negate ranges (s ! i) then [Suc i] else [])"
| "ends At_Beginning s i = (if i = 0 then [i] else [])"
| "ends At_End s i =
     (if i = length s \<or> (Suc i = length s \<and> s ! i = CHR 0x0A) then [i] else [])"
| "ends At_End_String s i = (if i = length s then [i] else [])"
| "ends At_Boundary s i =
     (if s \<noteq> [] \<and> ((0 < i \<and> is_word (s ! (i - 1))) \<noteq> (i < length s \<and> is_word (s ! i)))
      then [i] else [])"
| "ends Empty s i = [i]"
| "ends (Seq a b) s i = concat (map (ends b s) (ends a s i))"
| "ends (Branch a b) s i = ends a s i @ ends b s i"
| "ends (Subpattern r) s i = ends r s i"
| "ends (Max_Repeat m n r) s i = repeat_ends (ends r s) (length s) m n i"
| "ends (Min_Repeat m n r) s i = repeat_ends (ends r s) (length s) m n i"

text \<open>\<^verbatim>\<open>regex.match(s)\<close> is not \<^verbatim>\<open>None\<close>: some match starts at position 0.\<close>

definition re_match :: "regex \<Rightarrow> string \<Rightarrow> bool" where
  "re_match r s = (ends r s 0 \<noteq> [])"

subsection \<open>Compiling a pattern string\<close>

text \<open>
  \<^verbatim>\<open>re.compile\<close> raises \<^verbatim>\<open>re.error\<close> (or \<^verbatim>\<open>OverflowError\<close> for a huge repetition count)
  on a pattern it rejects: that is \<open>Inl Re_Error\<close>. A pattern whose syntax is beyond the
  part modelled here gives \<open>Inl Not_Modelled\<close>, which is no exception of Python: it says
  that this model of the library is silent about the pattern. These are references to
  groups, look-ahead and look-behind, named and atomic groups, comments, inline flags,
  conditionals, possessive repetition, \<^verbatim>\<open>\B\<close>, and numeric and named character escapes.
  A pattern that compiles here is read as CPython reads it.
\<close>

datatype exception = Re_Error | Not_Modelled

datatype token =
    T_Atom regex
  | T_Open
  | T_Close
  | T_Bar
  | T_Repeat bool nat "nat option"

definition MAXREPEAT :: nat where
  "MAXREPEAT = 4294967295"

definition is_digit :: "char \<Rightarrow> bool" where
  "is_digit c = in_range c (CHR ''0'', CHR ''9'')"

definition is_ascii_letter :: "char \<Rightarrow> bool" where
  "is_ascii_letter c = (in_range c (CHR ''a'', CHR ''z'') \<or> in_range c (CHR ''A'', CHR ''Z''))"

definition to_nat :: "string \<Rightarrow> nat" where
  "to_nat ds = foldl (\<lambda>n c. 10 * n + (of_char c - 48)) 0 ds"

text \<open>The escapes that stand for one character, inside and outside a set.\<close>

definition char_escape :: "char \<Rightarrow> char option" where
  "char_escape e =
     (if e = CHR ''a'' then Some (CHR 0x07)
      else if e = CHR ''f'' then Some (CHR 0x0C)
      else if e = CHR ''n'' then Some (CHR 0x0A)
      else if e = CHR ''r'' then Some (CHR 0x0D)
      else if e = CHR ''t'' then Some (CHR 0x09)
      else if e = CHR ''v'' then Some (CHR 0x0B)
      else None)"

text \<open>The escapes that stand for a category of characters.\<close>

definition category_escape :: "char \<Rightarrow> (char \<times> char) list option" where
  "category_escape e =
     (if e = CHR ''d'' then Some [(CHR ''0'', CHR ''9'')]
      else if e = CHR ''D'' then Some not_digit_ranges
      else if e = CHR ''s'' then Some space_ranges
      else if e = CHR ''S'' then Some not_space_ranges
      else if e = CHR ''w'' then Some word_ranges
      else if e = CHR ''W'' then Some not_word_ranges
      else None)"

text \<open>
  Escapes that this model does not read: \<^verbatim>\<open>\x\<close>, \<^verbatim>\<open>\u\<close>, \<^verbatim>\<open>\U\<close>, \<^verbatim>\<open>\N\<close> and those that
  begin with a digit (octal escapes and references to groups).
\<close>

definition numeric_escape :: "char \<Rightarrow> bool" where
  "numeric_escape e =
     (e = CHR ''x'' \<or> e = CHR ''u'' \<or> e = CHR ''U'' \<or> e = CHR ''N'' \<or> is_digit e)"

text \<open>After a backslash outside a set.\<close>

definition lex_escape :: "string \<Rightarrow> exception + token \<times> string" where
  "lex_escape cs =
     (case cs of
        [] \<Rightarrow> Inl Re_Error
      | e # rest \<Rightarrow>
          if e = CHR ''A'' then Inr (T_Atom At_Beginning, rest)
          else if e = CHR ''Z'' then Inr (T_Atom At_End_String, rest)
          else if e = CHR ''b'' then Inr (T_Atom At_Boundary, rest)
          else if e = CHR ''B'' then Inl Not_Modelled
          else case category_escape e of
            Some ranges \<Rightarrow> Inr (T_Atom (In False ranges), rest)
          | None \<Rightarrow>
          (case char_escape e of
            Some c \<Rightarrow> Inr (T_Atom (literal c), rest)
          | None \<Rightarrow>
              if numeric_escape e then Inl Not_Modelled
              else if is_ascii_letter e then Inl Re_Error
              else Inr (T_Atom (literal e), rest)))"

text \<open>
  One member of a set: a character (\<open>Inl\<close>) or a category (\<open>Inr\<close>), and the text after
  it. Inside a set \<^verbatim>\<open>\b\<close> is the backspace character.
\<close>

definition set_member :: "char \<Rightarrow> string \<Rightarrow> exception + (char + (char \<times> char) list) \<times> string" where
  "set_member c cs =
     (if c \<noteq> CHR 0x5C then Inr (Inl c, cs)
      else case cs of
        [] \<Rightarrow> Inl Re_Error
      | e # rest \<Rightarrow>
          if e = CHR ''b'' then Inr (Inl (CHR 0x08), rest)
          else case char_escape e of
            Some c' \<Rightarrow> Inr (Inl c', rest)
          | None \<Rightarrow>
          (case category_escape e of
            Some ranges \<Rightarrow> Inr (Inr ranges, rest)
          | None \<Rightarrow>
              if numeric_escape e then Inl Not_Modelled
              else if is_ascii_letter e then Inl Re_Error
              else Inr (Inl e, rest)))"

lemma set_member_shorter: "set_member c cs = Inr (m, rest) \<Longrightarrow> length rest \<le> length cs"
  by (auto simp: set_member_def split: if_splits list.splits option.splits)

definition member_ranges :: "char + (char \<times> char) list \<Rightarrow> (char \<times> char) list" where
  "member_ranges m = (case m of Inl c \<Rightarrow> [(c, c)] | Inr ranges \<Rightarrow> ranges)"

text \<open>
  The members of a set up to the closing bracket, and the text after it. A bracket that
  comes first is a member. \<open>seen\<close> tells whether a member has been read.
\<close>

function set_items :: "bool \<Rightarrow> string \<Rightarrow> exception + (char \<times> char) list \<times> string" where
  "set_items seen [] = Inl Re_Error"
| "set_items seen (c # cs) =
     (if c = CHR '']'' \<and> seen then Inr ([], cs)
      else case set_member c cs of
        Inl e \<Rightarrow> Inl e
      | Inr (m1, cs1) \<Rightarrow>
          if cs1 \<noteq> [] \<and> hd cs1 = CHR ''-'' then
            (case tl cs1 of
               [] \<Rightarrow> Inl Re_Error
             | d # cs2 \<Rightarrow>
                 if d = CHR '']'' then Inr (member_ranges m1 @ [(CHR ''-'', CHR ''-'')], cs2)
                 else case set_member d cs2 of
                   Inl e \<Rightarrow> Inl e
                 | Inr (m2, cs3) \<Rightarrow>
                     (case (m1, m2) of
                        (Inl lo, Inl hi) \<Rightarrow>
                          if (of_char hi :: nat) < of_char lo then Inl Re_Error
                          else (case set_items True cs3 of
                                  Inl e \<Rightarrow> Inl e
                                | Inr (ranges, rest) \<Rightarrow> Inr ((lo, hi) # ranges, rest))
                      | _ \<Rightarrow> Inl Re_Error))
          else (case set_items True cs1 of
                  Inl e \<Rightarrow> Inl e
                | Inr (ranges, rest) \<Rightarrow> Inr (member_ranges m1 @ ranges, rest)))"
  by pat_completeness auto
termination
  by (relation "measure (\<lambda>(seen, cs). length cs)")
     (auto dest!: set_member_shorter simp: length_Suc_conv dest: arg_cong[where f=length])

text \<open>After \<^verbatim>\<open>[\<close>: the set, and the rest of the pattern.\<close>

definition lex_set :: "string \<Rightarrow> exception + token \<times> string" where
  "lex_set cs =
     (let negate = (cs \<noteq> [] \<and> hd cs = CHR ''^'');
          cs' = (if negate then tl cs else cs)
      in case set_items False cs' of
           Inl e \<Rightarrow> Inl e
         | Inr (ranges, rest) \<Rightarrow> Inr (T_Atom (In negate ranges), rest))"

text \<open>
  After a repetition operator: \<^verbatim>\<open>?\<close> makes it lazy, \<^verbatim>\<open>+\<close> would make it possessive.
\<close>

definition repeat_token :: "nat \<Rightarrow> nat option \<Rightarrow> string \<Rightarrow> exception + token \<times> string" where
  "repeat_token m n rest =
     (if rest \<noteq> [] \<and> hd rest = CHR ''?'' then Inr (T_Repeat False m n, tl rest)
      else if rest \<noteq> [] \<and> hd rest = CHR ''+'' then Inl Not_Modelled
      else Inr (T_Repeat True m n, rest))"

text \<open>The bounds \<open>lo\<close> and \<open>hi\<close> of a repetition in braces, and the rest of the pattern.\<close>

definition repeat_bounds :: "string \<Rightarrow> string \<Rightarrow> string \<Rightarrow> exception + token \<times> string" where
  "repeat_bounds lo hi rest =
     (let lo_n = (if lo = [] then 0 else to_nat lo)
      in if MAXREPEAT \<le> lo_n then Inl Re_Error
         else if hi = [] then repeat_token lo_n None rest
         else if MAXREPEAT \<le> to_nat hi \<or> to_nat hi < lo_n then Inl Re_Error
         else repeat_token lo_n (Some (to_nat hi)) rest)"

text \<open>
  After \<^verbatim>\<open>{\<close>: digits, then a comma and digits or nothing, then \<^verbatim>\<open>}\<close> make a repetition
  (\<open>hi\<close> is \<open>lo\<close> without a comma); \<^verbatim>\<open>{}\<close> and every other text make the brace a literal.
\<close>

definition lex_brace :: "string \<Rightarrow> exception + token \<times> string" where
  "lex_brace cs =
     (let lo = takeWhile is_digit cs;
          cs1 = dropWhile is_digit cs;
          comma = (cs1 \<noteq> [] \<and> hd cs1 = CHR '','');
          hi = (if comma then takeWhile is_digit (tl cs1) else lo);
          cs2 = (if comma then dropWhile is_digit (tl cs1) else cs1)
      in if cs \<noteq> [] \<and> hd cs = CHR ''}'' then Inr (T_Atom (literal (CHR ''{'')), cs)
         else if cs2 \<noteq> [] \<and> hd cs2 = CHR ''}'' then repeat_bounds lo hi (tl cs2)
         else Inr (T_Atom (literal (CHR ''{'')), cs))"

text \<open>After \<^verbatim>\<open>(\<close>: a group, capturing or (\<^verbatim>\<open>?:\<close>) not; other extensions are not read.\<close>

definition lex_group :: "string \<Rightarrow> exception + token \<times> string" where
  "lex_group cs =
     (if cs \<noteq> [] \<and> hd cs = CHR ''?'' then
        (if tl cs \<noteq> [] \<and> hd (tl cs) = CHR '':'' then Inr (T_Open, tl (tl cs))
         else Inl Not_Modelled)
      else Inr (T_Open, cs))"

text \<open>The first token of a non-empty pattern text, and the text after it.\<close>

definition next_token :: "char \<Rightarrow> string \<Rightarrow> exception + token \<times> string" where
  "next_token c cs =
     (if c = CHR 0x5C then lex_escape cs
      else if c = CHR ''['' then lex_set cs
      else if c = CHR ''{'' then lex_brace cs
      else if c = CHR ''('' then lex_group cs
      else if c = CHR ''?'' then repeat_token 0 (Some 1) cs
      else if c = CHR ''*'' then repeat_token 0 None cs
      else if c = CHR ''+'' then repeat_token 1 None cs
      else if c = CHR ''.'' then Inr (T_Atom any_char, cs)
      else if c = CHR ''^'' then Inr (T_Atom At_Beginning, cs)
      else if c = CHR ''$'' then Inr (T_Atom At_End, cs)
      else if c = CHR '')'' then Inr (T_Close, cs)
      else if c = CHR ''|'' then Inr (T_Bar, cs)
      else Inr (T_Atom (literal c), cs))"

lemma set_items_shorter:
  "set_items seen cs = Inr (ranges, rest) \<Longrightarrow> length rest \<le> length cs"
proof (induction seen cs arbitrary: ranges rest rule: set_items.induct)
  case (1 seen)
  then show ?case by simp
next
  case (2 seen c cs)
  show ?case
  proof (cases "c = CHR '']'' \<and> seen")
    case True
    with "2.prems" show ?thesis by auto
  next
    case False
    with "2.prems" obtain m1 cs1 where m1: "set_member c cs = Inr (m1, cs1)"
      by (auto split: sum.splits)
    from set_member_shorter[OF m1] have l1: "length cs1 \<le> length cs" .
    show ?thesis
    proof (cases "cs1 \<noteq> [] \<and> hd cs1 = CHR ''-''")
      case dash: True
      then obtain d cs2 where t: "tl cs1 = d # cs2"
        using "2.prems" False m1 by (auto split: list.splits)
      from dash t have l2: "length cs1 = Suc (Suc (length cs2))"
        by (cases cs1) auto
      show ?thesis
      proof (cases "d = CHR '']''")
        case True
        with "2.prems" False m1 dash t have "rest = cs2" by auto
        with l1 l2 show ?thesis by simp
      next
        case nd: False
        with "2.prems" False m1 dash t obtain m2 cs3 where m2: "set_member d cs2 = Inr (m2, cs3)"
          by (auto split: sum.splits)
        from set_member_shorter[OF m2] have l3: "length cs3 \<le> length cs2" .
        from "2.prems" False m1 dash t nd m2 obtain lo hi r' where
          lh: "m1 = Inl lo" "m2 = Inl hi" and "\<not> (of_char hi :: nat) < of_char lo"
          and r: "set_items True cs3 = Inr (r', rest)"
          by (auto split: sum.splits if_splits)
        have "length rest \<le> length cs3"
          by (rule "2.IH"(1)[OF False m1 refl dash t nd m2 refl refl lh
                \<open>\<not> (of_char hi :: nat) < of_char lo\<close> r])
        with l1 l2 l3 show ?thesis by simp
      qed
    next
      case nodash: False
      with "2.prems" False m1 obtain r' where r: "set_items True cs1 = Inr (r', rest)"
        by (auto split: sum.splits)
      have "length rest \<le> length cs1"
        using "2.IH"(2)[OF False m1 refl nodash r] .
      with l1 show ?thesis by simp
    qed
  qed
qed

lemma repeat_token_shorter:
  "repeat_token m n cs = Inr (t, rest) \<Longrightarrow> length rest \<le> length cs"
  by (auto simp: repeat_token_def split: if_splits)

lemma next_token_shorter:
  "next_token c cs = Inr (t, rest) \<Longrightarrow> length rest \<le> length cs"
proof -
  assume a: "next_token c cs = Inr (t, rest)"
  have dw: "\<And>xs :: string. length (dropWhile is_digit xs) \<le> length xs"
    by (rule length_dropWhile_le)
  have tl_le: "\<And>xs :: string. length (tl xs) \<le> length xs" by simp
  consider (escape) "lex_escape cs = Inr (t, rest)" | (set) "lex_set cs = Inr (t, rest)"
    | (brace) "lex_brace cs = Inr (t, rest)" | (group) "lex_group cs = Inr (t, rest)"
    | (repeat) m n where "repeat_token m n cs = Inr (t, rest)" | (plain) "rest = cs"
    using a by (auto simp: next_token_def split: if_splits)
  then show ?thesis
  proof cases
    case escape
    then show ?thesis
      by (auto simp: lex_escape_def split: list.splits if_splits option.splits)
  next
    case set
    let ?cs' = "if cs \<noteq> [] \<and> hd cs = CHR ''^'' then tl cs else cs"
    from set obtain ranges where "set_items False ?cs' = Inr (ranges, rest)"
      by (auto simp: lex_set_def Let_def split: sum.splits)
    from set_items_shorter[OF this] have "length rest \<le> length ?cs'" .
    also have "\<dots> \<le> length cs" by simp
    finally show ?thesis .
  next
    case brace
    let ?cs1 = "dropWhile is_digit cs"
    let ?comma = "?cs1 \<noteq> [] \<and> hd ?cs1 = CHR '',''"
    let ?cs2 = "if ?comma then dropWhile is_digit (tl ?cs1) else ?cs1"
    have l2: "length ?cs2 \<le> length cs"
    proof (cases ?comma)
      case True
      then have e: "?cs2 = dropWhile is_digit (tl ?cs1)" by (rule if_P)
      have "length (dropWhile is_digit (tl ?cs1)) \<le> length (tl ?cs1)" by (rule dw)
      also have "\<dots> \<le> length ?cs1" by (rule tl_le)
      also have "\<dots> \<le> length cs" by (rule dw)
      finally show ?thesis unfolding e .
    next
      case False
      then have e: "?cs2 = ?cs1" by (rule if_not_P)
      show ?thesis unfolding e by (rule dw)
    qed
    from brace consider "rest = cs" | lo hi where "repeat_bounds lo hi (tl ?cs2) = Inr (t, rest)"
      by (auto simp: lex_brace_def Let_def split: if_splits)
    then show ?thesis
    proof cases
      case 1
      then show ?thesis by simp
    next
      case 2
      then obtain m n where "repeat_token m n (tl ?cs2) = Inr (t, rest)"
        by (auto simp: repeat_bounds_def Let_def split: if_splits)
      from repeat_token_shorter[OF this] have "length rest \<le> length (tl ?cs2)" .
      also have "\<dots> \<le> length ?cs2" by (rule tl_le)
      also have "\<dots> \<le> length cs" by (rule l2)
      finally show ?thesis .
    qed
  next
    case group
    then show ?thesis by (auto simp: lex_group_def split: if_splits)
  next
    case repeat
    then show ?thesis by (rule repeat_token_shorter)
  next
    case plain
    then show ?thesis by simp
  qed
qed

function lex :: "string \<Rightarrow> exception + token list" where
  "lex [] = Inr []"
| "lex (c # cs) =
     (case next_token c cs of
        Inl e \<Rightarrow> Inl e
      | Inr (t, rest) \<Rightarrow>
          (case lex rest of Inl e \<Rightarrow> Inl e | Inr ts \<Rightarrow> Inr (t # ts)))"
  by pat_completeness auto
termination
  by (relation "measure length") (auto dest: next_token_shorter)

text \<open>
  The parser keeps the branches already closed and the items of the branch being read,
  for the group being read and, on a stack, for each group around it.
\<close>

type_synonym frame = "regex list \<times> regex list"

fun seq_of :: "regex list \<Rightarrow> regex" where
  "seq_of [] = Empty"
| "seq_of [r] = r"
| "seq_of (r # rs) = Seq r (seq_of rs)"

fun branch_of :: "regex list \<Rightarrow> regex" where
  "branch_of [] = Empty"
| "branch_of [r] = r"
| "branch_of (r # rs) = Branch r (branch_of rs)"

definition close_frame :: "frame \<Rightarrow> regex" where
  "close_frame fr = branch_of (fst fr @ [seq_of (snd fr)])"

text \<open>An anchor cannot be repeated, and a repetition cannot be repeated again.\<close>

fun repeatable :: "regex \<Rightarrow> bool" where
  "repeatable At_Beginning = False"
| "repeatable At_End = False"
| "repeatable At_End_String = False"
| "repeatable At_Boundary = False"
| "repeatable (Max_Repeat m n r) = False"
| "repeatable (Min_Repeat m n r) = False"
| "repeatable r = True"

definition repeat_of :: "bool \<Rightarrow> nat \<Rightarrow> nat option \<Rightarrow> regex \<Rightarrow> regex" where
  "repeat_of greedy m n r = (if greedy then Max_Repeat m n r else Min_Repeat m n r)"

fun parse :: "frame list \<Rightarrow> frame \<Rightarrow> token list \<Rightarrow> exception + regex" where
  "parse stack fr [] = (if stack = [] then Inr (close_frame fr) else Inl Re_Error)"
| "parse stack fr (T_Atom a # ts) = parse stack (fst fr, snd fr @ [a]) ts"
| "parse stack fr (T_Bar # ts) = parse stack (fst fr @ [seq_of (snd fr)], []) ts"
| "parse stack fr (T_Open # ts) = parse (fr # stack) ([], []) ts"
| "parse stack fr (T_Close # ts) =
     (case stack of
        [] \<Rightarrow> Inl Re_Error
      | outer # stack' \<Rightarrow>
          parse stack' (fst outer, snd outer @ [Subpattern (close_frame fr)]) ts)"
| "parse stack fr (T_Repeat greedy m n # ts) =
     (if snd fr = [] then Inl Re_Error
      else if repeatable (last (snd fr))
      then parse stack (fst fr, butlast (snd fr) @ [repeat_of greedy m n (last (snd fr))]) ts
      else Inl Re_Error)"

definition re_compile :: "string \<Rightarrow> exception + regex" where
  "re_compile pattern =
     (case lex pattern of Inl e \<Rightarrow> Inl e | Inr ts \<Rightarrow> parse [] ([], []) ts)"

section \<open>The script\<close>

subsection \<open>Standard output\<close>

text \<open>
  Standard output is the sequence of code points written so far; it is passed through
  every function that prints. The report uses U+2713 and U+2717, which are not
  \<^typ>\<open>char\<close>s, so printed text is a list of code points and \<open>str\<close> embeds a string.
\<close>

type_synonym stdout = "nat list"

definition str :: "string \<Rightarrow> stdout" where
  "str s = map of_char s"

definition print :: "stdout \<Rightarrow> stdout \<Rightarrow> stdout" where
  "print line out = out @ line @ [10]"

definition check_mark :: nat where
  "check_mark = 0x2713"

definition ballot_x :: nat where
  "ballot_x = 0x2717"

definition quoted :: "string \<Rightarrow> stdout" where
  "quoted s = [39] @ str s @ [39]"

text \<open>\<^verbatim>\<open>'='*60\<close>\<close>

definition rule60 :: stdout where
  "rule60 = replicate 60 61"

subsection \<open>\<^verbatim>\<open>test_pattern\<close>\<close>

definition valid_pass :: "string \<Rightarrow> stdout" where
  "valid_pass test_input =
     str ''  '' @ [check_mark] @ str '' '' @ quoted test_input @ str '' - PASS''"

definition valid_fail :: "string \<Rightarrow> stdout" where
  "valid_fail test_input =
     str ''  '' @ [ballot_x] @ str '' '' @ quoted test_input @ str '' - FAIL (should match)''"

definition invalid_pass :: "string \<Rightarrow> stdout" where
  "invalid_pass test_input =
     str ''  '' @ [check_mark] @ str '' '' @ quoted test_input
       @ str '' - PASS (correctly rejected)''"

definition invalid_fail :: "string \<Rightarrow> stdout" where
  "invalid_fail test_input =
     str ''  '' @ [ballot_x] @ str '' '' @ quoted test_input
       @ str '' - FAIL (should not match)''"

text \<open>
  The two \<^verbatim>\<open>for\<close> loops, over the state \<open>(out, all_passed)\<close>. \<open>regex_match\<close> is the bound
  method \<^verbatim>\<open>regex.match\<close>: it tells whether the match object is not \<^verbatim>\<open>None\<close>.
\<close>

fun valid_loop :: "(string \<Rightarrow> bool) \<Rightarrow> string list \<Rightarrow> stdout \<times> bool \<Rightarrow> stdout \<times> bool" where
  "valid_loop regex_match [] st = st"
| "valid_loop regex_match (test_input # rest) (out, all_passed) =
     (if regex_match test_input
      then valid_loop regex_match rest (print (valid_pass test_input) out, all_passed)
      else valid_loop regex_match rest (print (valid_fail test_input) out, False))"

fun invalid_loop :: "(string \<Rightarrow> bool) \<Rightarrow> string list \<Rightarrow> stdout \<times> bool \<Rightarrow> stdout \<times> bool" where
  "invalid_loop regex_match [] st = st"
| "invalid_loop regex_match (test_input # rest) (out, all_passed) =
     (if regex_match test_input
      then invalid_loop regex_match rest (print (invalid_fail test_input) out, False)
      else invalid_loop regex_match rest (print (invalid_pass test_input) out, all_passed))"

text \<open>
  \<^verbatim>\<open>test_pattern\<close> with the two functions of the library that it calls as parameters:
  \<open>compile\<close> is \<^verbatim>\<open>re.compile\<close>, which returns a compiled pattern or raises, and \<open>match\<close>
  is \<^verbatim>\<open>Pattern.match\<close>, the match anchored at the start of the string. The header is
  printed before the pattern is compiled.
\<close>

definition test_pattern_with ::
  "(string \<Rightarrow> 'e + 'r) \<Rightarrow> ('r \<Rightarrow> string \<Rightarrow> bool) \<Rightarrow>
     string \<Rightarrow> string \<Rightarrow> string list \<Rightarrow> string list \<Rightarrow> stdout \<Rightarrow> stdout \<times> ('e + bool)" where
  "test_pattern_with compile match name pattern valid_inputs invalid_inputs out0 =
     (let out1 = print ([10] @ rule60) out0;
          out2 = print (str ''Testing: '' @ str name) out1;
          out3 = print (str ''Pattern: '' @ str pattern) out2;
          out4 = print rule60 out3
      in case compile pattern of
           Inl e \<Rightarrow> (out4, Inl e)
         | Inr regex \<Rightarrow>
             (let all_passed = True;
                  out5 = print ([10, check_mark] @ str '' Valid inputs (should match):'') out4;
                  st6 = valid_loop (match regex) valid_inputs (out5, all_passed);
                  out7 = print ([10, ballot_x] @ str '' Invalid inputs (should NOT match):'')
                           (fst st6);
                  st8 = invalid_loop (match regex) invalid_inputs (out7, snd st6)
              in (fst st8, Inr (snd st8))))"

text \<open>\<^verbatim>\<open>test_pattern\<close> as the script runs it, with the library of the first section.\<close>

definition test_pattern ::
  "string \<Rightarrow> string \<Rightarrow> string list \<Rightarrow> string list \<Rightarrow> stdout
     \<Rightarrow> stdout \<times> (exception + bool)" where
  "test_pattern name pattern valid_inputs invalid_inputs out0 =
     test_pattern_with re_compile re_match name pattern valid_inputs invalid_inputs out0"

subsection \<open>The four pattern cases of \<^verbatim>\<open>main\<close>\<close>

text \<open>\<^verbatim>\<open>r'^#?\d+$'\<close>\<close>

definition issue_number_pattern :: string where
  "issue_number_pattern = ''^#?'' @ [CHR 0x5C] @ ''d+$''"

definition issue_number_valid :: "string list" where
  "issue_number_valid = [''1'', ''123'', ''#1'', ''#123'', ''9999'']"

definition issue_number_invalid :: "string list" where
  "issue_number_invalid =
     [[], ''#'', ''abc'', ''#abc'', ''12a'', ''12 34'', ''12.34'', ''-12'']"

text \<open>\<^verbatim>\<open>r'^[a-zA-Z0-9]([a-zA-Z0-9-]{0,37}[a-zA-Z0-9])?$'\<close>\<close>

definition username_pattern :: string where
  "username_pattern = ''^[a-zA-Z0-9]([a-zA-Z0-9-]{0,37}[a-zA-Z0-9])?$''"

definition username_valid :: "string list" where
  "username_valid =
     [''copilot'', ''user123'', ''my-bot-name'', ''ABC'', ''a'', ''user-name-with-hyphens'',
      ''a'' @ replicate 37 (CHR ''1'') @ ''b'']"

definition username_invalid :: "string list" where
  "username_invalid =
     [[], ''-invalid'', ''invalid-'', ''user name'', ''user@name'', ''user.name'',
      ''user_name'', ''--invalid'', ''a'' @ replicate 38 (CHR ''1'') @ ''b'']"

text \<open>\<^verbatim>\<open>r'^[a-zA-Z0-9]([a-zA-Z0-9-]{0,37}[a-zA-Z0-9])?\[bot\]$'\<close>\<close>

definition bot_pattern :: string where
  "bot_pattern =
     ''^[a-zA-Z0-9]([a-zA-Z0-9-]{0,37}[a-zA-Z0-9])?''
       @ [CHR 0x5C] @ ''[bot'' @ [CHR 0x5C] @ '']$''"

definition bot_valid :: "string list" where
  "bot_valid = [''copilot[bot]'', ''my-app[bot]'', ''github-actions[bot]'', ''a[bot]'']"

definition bot_invalid :: "string list" where
  "bot_invalid =
     [[], ''copilot'', ''[bot]'', ''copilot[bot'', ''copilot bot]'', ''copilot-[bot]'',
      ''-copilot[bot]'', ''copilot[bot]-'', ''copilot[BOT]'']"

text \<open>\<^verbatim>\<open>r'^\d+$'\<close>\<close>

definition app_id_pattern :: string where
  "app_id_pattern = ''^'' @ [CHR 0x5C] @ ''d+$''"

definition app_id_valid :: "string list" where
  "app_id_valid = [''1'', ''12345'', ''999999'', ''0'']"

definition app_id_invalid :: "string list" where
  "app_id_invalid =
     [[], ''abc'', ''123abc'', ''abc123'', ''12.34'', ''-123'', ''12 34'', ''#123'']"

subsection \<open>\<^verbatim>\<open>main\<close>\<close>

text \<open>
  \<open>main_with\<close> is the body of \<^verbatim>\<open>main\<close> with the evaluator it calls four times as a
  parameter; \<^verbatim>\<open>main\<close> itself calls \<open>test_pattern\<close>. An exception of the evaluator leaves
  \<^verbatim>\<open>main\<close> at once. The integer returned is the exit status (\<^verbatim>\<open>sys.exit(main())\<close>).
\<close>

type_synonym 'e evaluator =
  "string \<Rightarrow> string \<Rightarrow> string list \<Rightarrow> string list \<Rightarrow> stdout
     \<Rightarrow> stdout \<times> ('e + bool)"

definition main_with :: "'e evaluator \<Rightarrow> stdout \<Rightarrow> stdout \<times> ('e + int)" where
  "main_with tp out0 =
     (let out1 = print (str ''Issue Template Validation Pattern Tests'') out0;
          out2 = print rule60 out1;
          all_tests_passed = True
      in case tp ''Issue Number Pattern'' issue_number_pattern
                issue_number_valid issue_number_invalid out2 of
           (out3, Inl e) \<Rightarrow> (out3, Inl e)
         | (out3, Inr r1) \<Rightarrow>
     (let all_tests_passed = (all_tests_passed \<and> r1)
      in case tp ''GitHub Username Pattern'' username_pattern
                username_valid username_invalid out3 of
           (out4, Inl e) \<Rightarrow> (out4, Inl e)
         | (out4, Inr r2) \<Rightarrow>
     (let all_tests_passed = (all_tests_passed \<and> r2)
      in case tp ''Bot Username Pattern'' bot_pattern bot_valid bot_invalid out4 of
           (out5, Inl e) \<Rightarrow> (out5, Inl e)
         | (out5, Inr r3) \<Rightarrow>
     (let all_tests_passed = (all_tests_passed \<and> r3)
      in case tp ''GitHub App ID Pattern'' app_id_pattern app_id_valid app_id_invalid out5 of
           (out6, Inl e) \<Rightarrow> (out6, Inl e)
         | (out6, Inr r4) \<Rightarrow>
     (let all_tests_passed = (all_tests_passed \<and> r4);
          out7 = print ([10] @ rule60) out6
      in if all_tests_passed
         then (print rule60 (print ([check_mark] @ str '' ALL TESTS PASSED'') out7), Inr 0)
         else (print rule60 (print ([ballot_x] @ str '' SOME TESTS FAILED'') out7), Inr 1))))))"

definition main :: "stdout \<Rightarrow> stdout \<times> (exception + int)" where
  "main out0 = main_with test_pattern out0"

subsection \<open>The process\<close>

text \<open>
  The script is run as a process: \<^verbatim>\<open>if __name__ == '__main__': sys.exit(main())\<close>. The
  state of a process that a Python program can read or change is kept in a record: the
  arguments (\<^verbatim>\<open>sys.argv\<close>), the environment variables (\<^verbatim>\<open>os.environ\<close>) and what has been
  written to standard output. \<^verbatim>\<open>main\<close> is called without arguments and reads neither
  \<^verbatim>\<open>sys.argv\<close> nor \<^verbatim>\<open>os.environ\<close>; it writes to standard output and its result is the exit
  status. \<open>run_script_with\<close> has the two library functions as parameters, as
  \<open>test_pattern_with\<close> has.
\<close>

record process =
  argv :: "string list"
  environ :: "(string \<times> string) list"
  written :: stdout



section \<open>What the specification says\<close>

subsection \<open>A match anchored at the start of the string\<close>

text \<open>
  \<open>span r s i j\<close>: the pattern \<open>r\<close> matches the part of \<open>s\<close> from position \<open>i\<close> up to
  position \<open>j\<close>, the anchors being read in the whole string \<open>s\<close>. A prefix of \<open>s\<close> that
  starts at position 0 and matches \<open>r\<close> is a \<open>j\<close> with \<open>span r s 0 j\<close>; a match of the
  whole string is \<open>span r s 0 (length s)\<close>; an unanchored search would accept any
  \<open>span r s i j\<close>.
\<close>

primrec iter :: "(nat \<Rightarrow> nat \<Rightarrow> bool) \<Rightarrow> nat \<Rightarrow> nat \<Rightarrow> nat \<Rightarrow> bool" where
  "iter P 0 i j = (j = i)"
| "iter P (Suc k) i j = (\<exists>x. P i x \<and> iter P k x j)"

primrec span :: "regex \<Rightarrow> string \<Rightarrow> nat \<Rightarrow> nat \<Rightarrow> bool" where
  "span (In negate ranges) s i j = (i < length s \<and> in_set negate ranges (s ! i) \<and> j = Suc i)"
| "span At_Beginning s i j = (i = 0 \<and> j = i)"
| "span At_End s i j =
     ((i = length s \<or> (Suc i = length s \<and> s ! i = CHR 0x0A)) \<and> j = i)"
| "span At_End_String s i j = (i = length s \<and> j = i)"
| "span At_Boundary s i j =
     (s \<noteq> [] \<and> ((0 < i \<and> is_word (s ! (i - 1))) \<noteq> (i < length s \<and> is_word (s ! i))) \<and> j = i)"
| "span Empty s i j = (j = i)"
| "span (Seq a b) s i j = (\<exists>k. span a s i k \<and> span b s k j)"
| "span (Branch a b) s i j = (span a s i j \<or> span b s i j)"
| "span (Subpattern r) s i j = span r s i j"
| "span (Max_Repeat m n r) s i j =
     (\<exists>k. m \<le> k \<and> (case n of None \<Rightarrow> True | Some n' \<Rightarrow> k \<le> n') \<and> iter (span r s) k i j)"
| "span (Min_Repeat m n r) s i j =
     (\<exists>k. m \<le> k \<and> (case n of None \<Rightarrow> True | Some n' \<Rightarrow> k \<le> n') \<and> iter (span r s) k i j)"



subsection \<open>The report of one pattern case\<close>

text \<open>
  The report that the specification describes for a case whose pattern compiled, where
  \<open>regex_match\<close> tells which strings the pattern matches: the header with the name and
  the pattern text, the heading of the valid block, one line for each valid example in
  order, the heading of the invalid block and one line for each invalid example in order.
\<close>

definition valid_line :: "(string \<Rightarrow> bool) \<Rightarrow> string \<Rightarrow> stdout" where
  "valid_line regex_match s = (if regex_match s then valid_pass s else valid_fail s) @ [10]"

definition invalid_line :: "(string \<Rightarrow> bool) \<Rightarrow> string \<Rightarrow> stdout" where
  "invalid_line regex_match s =
     (if regex_match s then invalid_fail s else invalid_pass s) @ [10]"

definition report_header :: "string \<Rightarrow> string \<Rightarrow> stdout" where
  "report_header name pattern =
     [10] @ rule60 @ [10] @ str ''Testing: '' @ str name @ [10]
       @ str ''Pattern: '' @ str pattern @ [10] @ rule60 @ [10]"

definition expected_report ::
  "(string \<Rightarrow> bool) \<Rightarrow> string \<Rightarrow> string \<Rightarrow> string list \<Rightarrow> string list \<Rightarrow> stdout" where
  "expected_report regex_match name pattern valid invalid =
     report_header name pattern
       @ [10, check_mark] @ str '' Valid inputs (should match):'' @ [10]
       @ concat (map (valid_line regex_match) valid)
       @ [10, ballot_x] @ str '' Invalid inputs (should NOT match):'' @ [10]
       @ concat (map (invalid_line regex_match) invalid)"

section \<open>The matcher computes the anchored matches\<close>

lemma iter_add: "iter P (a + b) i j \<longleftrightarrow> (\<exists>x. iter P a i x \<and> iter P b x j)"
  by (induction a arbitrary: i) auto

lemma iter_bounds:
  assumes "\<And>i j. i \<le> n \<Longrightarrow> P i j \<Longrightarrow> i \<le> j \<and> j \<le> n"
  shows "i \<le> n \<Longrightarrow> iter P k i j \<Longrightarrow> i \<le> j \<and> j \<le> n"
proof (induction k arbitrary: i)
  case 0
  then show ?case by simp
next
  case (Suc k)
  from Suc.prems(2) obtain x where x: "P i x" "iter P k x j" by auto
  from assms[OF Suc.prems(1) x(1)] have "i \<le> x" "x \<le> n" by auto
  with Suc.IH[OF \<open>x \<le> n\<close> x(2)] show ?case by auto
qed

lemma times_iter:
  assumes f: "\<And>i. i \<le> n \<Longrightarrow> set (f i) = {j. P i j}"
    and b: "\<And>i j. i \<le> n \<Longrightarrow> P i j \<Longrightarrow> i \<le> j \<and> j \<le> n"
  shows "i \<le> n \<Longrightarrow> (j \<in> set (times f m i)) = iter P m i j"
proof (induction m arbitrary: i)
  case 0
  show ?case by auto
next
  case (Suc m)
  have step: "\<And>x. P i x \<Longrightarrow> (j \<in> set (times f m x)) = iter P m x j"
  proof -
    fix x assume "P i x"
    with b[OF Suc.prems] have "x \<le> n" by simp
    then show "(j \<in> set (times f m x)) = iter P m x j" by (rule Suc.IH)
  qed
  have "(j \<in> set (times f (Suc m) i)) = (\<exists>x\<in>set (f i). j \<in> set (times f m x))" by simp
  also have "\<dots> = (\<exists>x. P i x \<and> j \<in> set (times f m x))"
    unfolding f[OF Suc.prems] by simp
  also have "\<dots> = (\<exists>x. P i x \<and> iter P m x j)" using step by blast
  also have "\<dots> = iter P (Suc m) i j" by simp
  finally show ?case .
qed

lemma at_most_iter:
  assumes f: "\<And>i. i \<le> n \<Longrightarrow> set (f i) = {j. P i j}"
    and b: "\<And>i j. i \<le> n \<Longrightarrow> P i j \<Longrightarrow> i \<le> j \<and> j \<le> n"
  shows "i \<le> n \<Longrightarrow> (j \<in> set (at_most f k i)) = (\<exists>d\<le>k. iter P d i j)"
proof (induction k arbitrary: i)
  case 0
  show ?case by auto
next
  case (Suc k)
  have step: "\<And>x. P i x \<Longrightarrow> (j \<in> set (at_most f k x)) = (\<exists>d\<le>k. iter P d x j)"
  proof -
    fix x assume "P i x"
    with b[OF Suc.prems] have "x \<le> n" by simp
    then show "(j \<in> set (at_most f k x)) = (\<exists>d\<le>k. iter P d x j)" by (rule Suc.IH)
  qed
  have "(j \<in> set (at_most f (Suc k) i)) = (j = i \<or> (\<exists>x\<in>set (f i). j \<in> set (at_most f k x)))"
    by auto
  also have "\<dots> = (j = i \<or> (\<exists>x. P i x \<and> j \<in> set (at_most f k x)))"
    unfolding f[OF Suc.prems] by simp
  also have "\<dots> = (j = i \<or> (\<exists>x. P i x \<and> (\<exists>d\<le>k. iter P d x j)))" using step by blast
  also have "\<dots> = (\<exists>d\<le>Suc k. iter P d i j)"
  proof
    assume "j = i \<or> (\<exists>x. P i x \<and> (\<exists>d\<le>k. iter P d x j))"
    then show "\<exists>d\<le>Suc k. iter P d i j"
    proof
      assume "j = i"
      then have "0 \<le> Suc k \<and> iter P 0 i j" by simp
      then show ?thesis by (rule exI)
    next
      assume "\<exists>x. P i x \<and> (\<exists>d\<le>k. iter P d x j)"
      then obtain x d where "P i x" "d \<le> k" "iter P d x j" by blast
      then have "Suc d \<le> Suc k \<and> iter P (Suc d) i j" by auto
      then show ?thesis by (rule exI)
    qed
  next
    assume "\<exists>d\<le>Suc k. iter P d i j"
    then obtain d where d: "d \<le> Suc k" "iter P d i j" by blast
    show "j = i \<or> (\<exists>x. P i x \<and> (\<exists>d\<le>k. iter P d x j))"
    proof (cases d)
      case 0
      with d show ?thesis by simp
    next
      case (Suc d')
      with d obtain x where "P i x" "iter P d' x j" "d' \<le> k" by auto
      then show ?thesis by blast
    qed
  qed
  finally show ?case .
qed

lemma star_unfold:
  "(j \<in> set (star f n i)) =
     (j = i \<or> (\<exists>x\<in>set (f i). i < x \<and> x \<le> n \<and> j \<in> set (star f n x)))"
proof -
  have "set (star f n i) =
          set (concat (map (star f n) (filter (\<lambda>j. i < j \<and> j \<le> n) (f i))) @ [i])"
    by (subst star.simps) (rule refl)
  then show ?thesis by auto
qed

lemma star_sound:
  "(\<And>i. i \<le> n \<Longrightarrow> set (f i) = {j. P i j}) \<Longrightarrow> i \<le> n \<Longrightarrow> j \<in> set (star f n i)
     \<Longrightarrow> \<exists>d. iter P d i j"
proof (induction f n i rule: star.induct)
  case (1 f n i)
  from "1.prems"(3)
  have "j = i \<or> (\<exists>x\<in>set (f i). i < x \<and> x \<le> n \<and> j \<in> set (star f n x))"
    using star_unfold[of j f n i] by blast
  then show ?case
  proof
    assume "j = i"
    then have "iter P 0 i j" by simp
    then show ?thesis by (rule exI)
  next
    assume "\<exists>x\<in>set (f i). i < x \<and> x \<le> n \<and> j \<in> set (star f n x)"
    then obtain x where x: "x \<in> set (f i)" "i < x" "x \<le> n" "j \<in> set (star f n x)"
      by blast
    have "x \<in> set (filter (\<lambda>j. i < j \<and> j \<le> n) (f i))" using x by simp
    from "1.IH"[OF this "1.prems"(1) x(3) x(4)] obtain d where d: "iter P d x j"
      by blast
    from x(1) "1.prems"(1)[OF "1.prems"(2)] have "P i x" by simp
    with d have "iter P (Suc d) i j" by auto
    then show ?thesis by (rule exI)
  qed
qed

lemma star_complete:
  assumes f: "\<And>i. i \<le> n \<Longrightarrow> set (f i) = {j. P i j}"
    and b: "\<And>i j. i \<le> n \<Longrightarrow> P i j \<Longrightarrow> i \<le> j \<and> j \<le> n"
  shows "i \<le> n \<Longrightarrow> iter P d i j \<Longrightarrow> j \<in> set (star f n i)"
proof (induction d arbitrary: i)
  case 0
  have "i \<in> set (star f n i)" using star_unfold[of i f n i] by blast
  with 0 show ?case by simp
next
  case (Suc d)
  from Suc.prems(2) obtain x where x: "P i x" "iter P d x j" by auto
  from b[OF Suc.prems(1) x(1)] have le: "i \<le> x" "x \<le> n" by simp_all
  from Suc.IH[OF le(2) x(2)] have in_x: "j \<in> set (star f n x)" .
  show ?case
  proof (cases "x = i")
    case True
    with in_x show ?thesis by simp
  next
    case False
    with le have "i < x" by simp
    moreover from x(1) f[OF Suc.prems(1)] have "x \<in> set (f i)" by simp
    ultimately have "\<exists>x\<in>set (f i). i < x \<and> x \<le> n \<and> j \<in> set (star f n x)"
      using in_x le(2) by blast
    with star_unfold[of j f n i] show ?thesis by blast
  qed
qed

lemma star_iter:
  assumes f: "\<And>i. i \<le> n \<Longrightarrow> set (f i) = {j. P i j}"
    and b: "\<And>i j. i \<le> n \<Longrightarrow> P i j \<Longrightarrow> i \<le> j \<and> j \<le> n"
    and i: "i \<le> n"
  shows "(j \<in> set (star f n i)) = (\<exists>d. iter P d i j)"
proof
  assume "j \<in> set (star f n i)"
  with star_sound[of n f P i j] f i show "\<exists>d. iter P d i j" by blast
next
  assume "\<exists>d. iter P d i j"
  then obtain d where "iter P d i j" by blast
  from star_complete[of n f P, OF f b i this] show "j \<in> set (star f n i)" by simp
qed

lemma repeat_ends_iter:
  assumes f: "\<And>i. i \<le> len \<Longrightarrow> set (f i) = {j. P i j}"
    and b: "\<And>i j. i \<le> len \<Longrightarrow> P i j \<Longrightarrow> i \<le> j \<and> j \<le> len"
    and i: "i \<le> len"
  shows "(j \<in> set (repeat_ends f len m n i)) =
           (\<exists>k. m \<le> k \<and> (case n of None \<Rightarrow> True | Some n' \<Rightarrow> k \<le> n') \<and> iter P k i j)"
proof -
  have t: "\<And>x. (x \<in> set (times f m i)) = iter P m i x"
    by (rule times_iter[of len f P, OF f b i])
  have tb: "\<And>x. iter P m i x \<Longrightarrow> x \<le> len"
  proof -
    fix x assume "iter P m i x"
    from iter_bounds[of len P, OF b i this] show "x \<le> len" by simp
  qed
  show ?thesis
  proof (cases n)
    case None
    have step: "\<And>x. iter P m i x \<Longrightarrow> (j \<in> set (star f len x)) = (\<exists>d. iter P d x j)"
    proof -
      fix x assume "iter P m i x"
      then have "x \<le> len" by (rule tb)
      from star_iter[of len f P x j, OF f b this]
      show "(j \<in> set (star f len x)) = (\<exists>d. iter P d x j)" .
    qed
    have "(j \<in> set (repeat_ends f len m n i)) =
            (\<exists>x. x \<in> set (times f m i) \<and> j \<in> set (star f len x))"
      using None by (auto simp: repeat_ends_def)
    also have "\<dots> = (\<exists>x. iter P m i x \<and> j \<in> set (star f len x))"
      unfolding t ..
    also have "\<dots> = (\<exists>x. iter P m i x \<and> (\<exists>d. iter P d x j))" using step by blast
    also have "\<dots> = (\<exists>k\<ge>m. iter P k i j)"
    proof
      assume "\<exists>x. iter P m i x \<and> (\<exists>d. iter P d x j)"
      then obtain x d where "iter P m i x" "iter P d x j" by blast
      then have "iter P (m + d) i j" unfolding iter_add by blast
      then have "m \<le> m + d \<and> iter P (m + d) i j" by simp
      then show "\<exists>k\<ge>m. iter P k i j" by (rule exI)
    next
      assume "\<exists>k\<ge>m. iter P k i j"
      then obtain k where k: "m \<le> k" "iter P k i j" by blast
      then have "iter P (m + (k - m)) i j" by simp
      then show "\<exists>x. iter P m i x \<and> (\<exists>d. iter P d x j)" unfolding iter_add by blast
    qed
    also have "\<dots> = (\<exists>k. m \<le> k \<and> (case n of None \<Rightarrow> True | Some n' \<Rightarrow> k \<le> n') \<and> iter P k i j)" using None by simp
    finally show ?thesis .
  next
    case (Some n')
    show ?thesis
    proof (cases "n' < m")
      case True
      have "\<not> (\<exists>k. m \<le> k \<and> (case n of None \<Rightarrow> True | Some n' \<Rightarrow> k \<le> n') \<and> iter P k i j)" using Some True by auto
      moreover have "j \<notin> set (repeat_ends f len m n i)" using Some True by (simp add: repeat_ends_def)
      ultimately show ?thesis by simp
    next
      case False
      have step: "\<And>x. iter P m i x \<Longrightarrow>
                    (j \<in> set (at_most f (n' - m) x)) = (\<exists>d\<le>n' - m. iter P d x j)"
      proof -
        fix x assume "iter P m i x"
        then have "x \<le> len" by (rule tb)
        from at_most_iter[of len f P x j "n' - m", OF f b this]
        show "(j \<in> set (at_most f (n' - m) x)) = (\<exists>d\<le>n' - m. iter P d x j)" .
      qed
      have "(j \<in> set (repeat_ends f len m n i)) =
              (\<exists>x. x \<in> set (times f m i) \<and> j \<in> set (at_most f (n' - m) x))"
        using Some False by (auto simp: repeat_ends_def)
      also have "\<dots> = (\<exists>x. iter P m i x \<and> j \<in> set (at_most f (n' - m) x))"
        unfolding t ..
      also have "\<dots> = (\<exists>x. iter P m i x \<and> (\<exists>d\<le>n' - m. iter P d x j))"
        using step by blast
      also have "\<dots> = (\<exists>k\<ge>m. k \<le> n' \<and> iter P k i j)"
      proof
        assume "\<exists>x. iter P m i x \<and> (\<exists>d\<le>n' - m. iter P d x j)"
        then obtain x d where xd: "iter P m i x" "d \<le> n' - m" "iter P d x j" by blast
        then have "iter P (m + d) i j" unfolding iter_add by blast
        moreover from xd(2) False have "m + d \<le> n'" by simp
        ultimately have "m \<le> m + d \<and> m + d \<le> n' \<and> iter P (m + d) i j" by simp
        then show "\<exists>k\<ge>m. k \<le> n' \<and> iter P k i j" by (rule exI)
      next
        assume "\<exists>k\<ge>m. k \<le> n' \<and> iter P k i j"
        then obtain k where k: "m \<le> k" "k \<le> n'" "iter P k i j" by blast
        then have "iter P (m + (k - m)) i j" by simp
        then obtain x where "iter P m i x" "iter P (k - m) x j" unfolding iter_add by blast
        moreover from k have "k - m \<le> n' - m" by simp
        ultimately show "\<exists>x. iter P m i x \<and> (\<exists>d\<le>n' - m. iter P d x j)" by blast
      qed
      also have "\<dots> = (\<exists>k. m \<le> k \<and> (case n of None \<Rightarrow> True | Some n' \<Rightarrow> k \<le> n') \<and> iter P k i j)" using Some by simp
      finally show ?thesis .
    qed
  qed
qed

lemma span_bounds: "i \<le> length s \<Longrightarrow> span r s i j \<Longrightarrow> i \<le> j \<and> j \<le> length s"
proof (induction r arbitrary: i j)
  case (In negate ranges)
  then show ?case by simp
next
  case At_Beginning
  then show ?case by simp
next
  case At_End
  then show ?case by simp
next
  case At_End_String
  then show ?case by simp
next
  case At_Boundary
  then show ?case by simp
next
  case Empty
  then show ?case by simp
next
  case (Seq a b)
  from Seq.prems(2) obtain k where k: "span a s i k" "span b s k j" by auto
  from Seq.IH(1)[OF Seq.prems(1) k(1)] have ik: "i \<le> k" "k \<le> length s" by simp_all
  from Seq.IH(2)[OF ik(2) k(2)] have "k \<le> j" "j \<le> length s" by simp_all
  with ik show ?case by simp
next
  case (Branch a b)
  from Branch.prems(2) have "span a s i j \<or> span b s i j" by simp
  then show ?case
  proof
    assume "span a s i j"
    from Branch.IH(1)[OF Branch.prems(1) this] show ?thesis .
  next
    assume "span b s i j"
    from Branch.IH(2)[OF Branch.prems(1) this] show ?thesis .
  qed
next
  case (Subpattern r)
  from Subpattern.prems(2) have "span r s i j" by simp
  from Subpattern.IH[OF Subpattern.prems(1) this] show ?case .
next
  case (Max_Repeat m n r)
  from Max_Repeat.prems(2) obtain k where "iter (span r s) k i j" by auto
  from iter_bounds[of "length s" "span r s", OF Max_Repeat.IH Max_Repeat.prems(1) this]
  show ?case by simp
next
  case (Min_Repeat m n r)
  from Min_Repeat.prems(2) obtain k where "iter (span r s) k i j" by auto
  from iter_bounds[of "length s" "span r s", OF Min_Repeat.IH Min_Repeat.prems(1) this]
  show ?case by simp
qed

lemma ends_span: "i \<le> length s \<Longrightarrow> (j \<in> set (ends r s i)) = span r s i j"
proof (induction r arbitrary: i j)
  case (In negate ranges)
  show ?case by auto
next
  case At_Beginning
  show ?case by auto
next
  case At_End
  show ?case by auto
next
  case At_End_String
  show ?case by auto
next
  case At_Boundary
  show ?case by auto
next
  case Empty
  show ?case by auto
next
  case (Seq a b)
  have step: "\<And>k. span a s i k \<Longrightarrow> (j \<in> set (ends b s k)) = span b s k j"
  proof -
    fix k assume "span a s i k"
    with span_bounds[OF Seq.prems] have "k \<le> length s" by simp
    then show "(j \<in> set (ends b s k)) = span b s k j" by (rule Seq.IH(2))
  qed
  have "(j \<in> set (ends (Seq a b) s i)) = (\<exists>k. k \<in> set (ends a s i) \<and> j \<in> set (ends b s k))"
    by auto
  also have "\<dots> = (\<exists>k. span a s i k \<and> j \<in> set (ends b s k))"
    unfolding Seq.IH(1)[OF Seq.prems] ..
  also have "\<dots> = (\<exists>k. span a s i k \<and> span b s k j)" using step by blast
  also have "\<dots> = span (Seq a b) s i j" by simp
  finally show ?case .
next
  case (Branch a b)
  have "(j \<in> set (ends (Branch a b) s i)) = (j \<in> set (ends a s i) \<or> j \<in> set (ends b s i))"
    by simp
  also have "\<dots> = (span a s i j \<or> span b s i j)"
    unfolding Branch.IH(1)[OF Branch.prems] Branch.IH(2)[OF Branch.prems] ..
  also have "\<dots> = span (Branch a b) s i j" by simp
  finally show ?case .
next
  case (Subpattern r)
  have "(j \<in> set (ends (Subpattern r) s i)) = (j \<in> set (ends r s i))" by simp
  also have "\<dots> = span r s i j" by (rule Subpattern.IH[OF Subpattern.prems])
  also have "\<dots> = span (Subpattern r) s i j" by simp
  finally show ?case .
next
  case (Max_Repeat m n r)
  have f: "\<And>i. i \<le> length s \<Longrightarrow> set (ends r s i) = {j. span r s i j}"
  proof -
    fix i assume "i \<le> length s"
    from Max_Repeat.IH[OF this] show "set (ends r s i) = {j. span r s i j}" by blast
  qed
  have b: "\<And>i j. i \<le> length s \<Longrightarrow> span r s i j \<Longrightarrow> i \<le> j \<and> j \<le> length s"
    by (rule span_bounds)
  from repeat_ends_iter[of "length s" "ends r s" "span r s" i j m n, OF f b Max_Repeat.prems]
  show ?case by simp
next
  case (Min_Repeat m n r)
  have f: "\<And>i. i \<le> length s \<Longrightarrow> set (ends r s i) = {j. span r s i j}"
  proof -
    fix i assume "i \<le> length s"
    from Min_Repeat.IH[OF this] show "set (ends r s i) = {j. span r s i j}" by blast
  qed
  have b: "\<And>i j. i \<le> length s \<Longrightarrow> span r s i j \<Longrightarrow> i \<le> j \<and> j \<le> length s"
    by (rule span_bounds)
  from repeat_ends_iter[of "length s" "ends r s" "span r s" i j m n, OF f b Min_Repeat.prems]
  show ?case by simp
qed



section \<open>What \<^verbatim>\<open>test_pattern\<close> returns and prints\<close>

lemma valid_loop_eq:
  "valid_loop m xs (out, b) = (out @ concat (map (valid_line m) xs), b \<and> list_all m xs)"
  by (induction xs arbitrary: out b) (auto simp: print_def valid_line_def)

lemma invalid_loop_eq:
  "invalid_loop m xs (out, b) =
     (out @ concat (map (invalid_line m) xs), b \<and> list_all (\<lambda>s. \<not> m s) xs)"
  by (induction xs arbitrary: out b) (auto simp: print_def invalid_line_def)

lemma test_pattern_with_compiled:
  assumes "compile pattern = Inr regex"
  shows "test_pattern_with compile match name pattern valid invalid out =
           (out @ expected_report (match regex) name pattern valid invalid,
            Inr (list_all (match regex) valid \<and> list_all (\<lambda>s. \<not> match regex s) invalid))"
  using assms
  by (simp add: test_pattern_with_def Let_def valid_loop_eq invalid_loop_eq print_def
        expected_report_def report_header_def)

lemma test_pattern_with_raised:
  assumes "compile pattern = Inl e"
  shows "test_pattern_with compile match name pattern valid invalid out =
           (out @ report_header name pattern, Inl e)"
  using assms
  by (simp add: test_pattern_with_def Let_def print_def report_header_def)


lemma test_pattern_compiled:
  assumes "re_compile pattern = Inr regex"
  shows "test_pattern name pattern valid invalid out =
           (out @ expected_report (re_match regex) name pattern valid invalid,
            Inr (list_all (re_match regex) valid \<and> list_all (\<lambda>s. \<not> re_match regex s) invalid))"
  unfolding test_pattern_def
  by (rule test_pattern_with_compiled[where compile=re_compile and pattern=pattern, OF assms])

lemma test_pattern_rejected:
  assumes "re_compile pattern = Inl e"
  shows "test_pattern name pattern valid invalid out = (out @ report_header name pattern, Inl e)"
  unfolding test_pattern_def
  by (rule test_pattern_with_raised[where compile=re_compile and pattern=pattern, OF assms])

section \<open>What \<^verbatim>\<open>main\<close> returns and prints\<close>

lemma main_with_result:
  assumes "\<And>out. snd (tp ''Issue Number Pattern'' issue_number_pattern
                      issue_number_valid issue_number_invalid out) = Inr b1"
    and "\<And>out. snd (tp ''GitHub Username Pattern'' username_pattern
                      username_valid username_invalid out) = Inr b2"
    and "\<And>out. snd (tp ''Bot Username Pattern'' bot_pattern bot_valid bot_invalid out) = Inr b3"
    and "\<And>out. snd (tp ''GitHub App ID Pattern'' app_id_pattern
                      app_id_valid app_id_invalid out) = Inr b4"
  shows "main_with tp out =
     (let out2 = print rule60 (print (str ''Issue Template Validation Pattern Tests'') out);
          out3 = fst (tp ''Issue Number Pattern'' issue_number_pattern
                        issue_number_valid issue_number_invalid out2);
          out4 = fst (tp ''GitHub Username Pattern'' username_pattern
                        username_valid username_invalid out3);
          out5 = fst (tp ''Bot Username Pattern'' bot_pattern bot_valid bot_invalid out4);
          out6 = fst (tp ''GitHub App ID Pattern'' app_id_pattern
                        app_id_valid app_id_invalid out5);
          out7 = print ([10] @ rule60) out6
      in if b1 \<and> b2 \<and> b3 \<and> b4
         then (print rule60 (print ([check_mark] @ str '' ALL TESTS PASSED'') out7), Inr 0)
         else (print rule60 (print ([ballot_x] @ str '' SOME TESTS FAILED'') out7), Inr 1))"
proof -
  have pr: "\<And>x b. snd x = Inr b \<Longrightarrow> x = (fst x, Inr b)" by (metis prod.collapse)
  define out2 where "out2 = print rule60 (print (str ''Issue Template Validation Pattern Tests'') out)"
  define out3 where "out3 = fst (tp ''Issue Number Pattern'' issue_number_pattern
                        issue_number_valid issue_number_invalid out2)"
  define out4 where "out4 = fst (tp ''GitHub Username Pattern'' username_pattern
                        username_valid username_invalid out3)"
  define out5 where "out5 = fst (tp ''Bot Username Pattern'' bot_pattern bot_valid bot_invalid out4)"
  define out6 where "out6 = fst (tp ''GitHub App ID Pattern'' app_id_pattern
                        app_id_valid app_id_invalid out5)"
  have t1: "tp ''Issue Number Pattern'' issue_number_pattern
              issue_number_valid issue_number_invalid out2 = (out3, Inr b1)"
    unfolding out3_def by (rule pr[OF assms(1)])
  have t2: "tp ''GitHub Username Pattern'' username_pattern
              username_valid username_invalid out3 = (out4, Inr b2)"
    unfolding out4_def by (rule pr[OF assms(2)])
  have t3: "tp ''Bot Username Pattern'' bot_pattern bot_valid bot_invalid out4 = (out5, Inr b3)"
    unfolding out5_def by (rule pr[OF assms(3)])
  have t4: "tp ''GitHub App ID Pattern'' app_id_pattern
              app_id_valid app_id_invalid out5 = (out6, Inr b4)"
    unfolding out6_def by (rule pr[OF assms(4)])
  have lhs: "main_with tp out =
     (if b1 \<and> b2 \<and> b3 \<and> b4
      then (print rule60 (print ([check_mark] @ str '' ALL TESTS PASSED'')
              (print ([10] @ rule60) out6)), Inr 0)
      else (print rule60 (print ([ballot_x] @ str '' SOME TESTS FAILED'')
              (print ([10] @ rule60) out6)), Inr 1))"
    unfolding main_with_def Let_def out2_def[symmetric]
    by (simp only: t1 t2 t3 t4 prod.case sum.case simp_thms conj_assoc)
  show ?thesis
    unfolding lhs Let_def out2_def[symmetric] out3_def[symmetric] out4_def[symmetric]
      out5_def[symmetric] out6_def[symmetric] ..
qed


section \<open>The four shipped patterns\<close>

lemmas compile_defs = re_compile_def next_token_def lex_escape_def lex_set_def lex_brace_def
  lex_group_def repeat_bounds_def repeat_token_def set_member_def member_ranges_def
  char_escape_def category_escape_def numeric_escape_def repeat_of_def to_nat_def is_digit_def
  is_ascii_letter_def in_range_def MAXREPEAT_def close_frame_def Let_def

lemma compile_issue_number:
  "re_compile issue_number_pattern =
     Inr (Seq At_Beginning (Seq (Max_Repeat 0 (Some 1) (literal (CHR ''#'')))
            (Seq (Max_Repeat 1 None digit) At_End)))"
  by (simp add: issue_number_pattern_def compile_defs digit_def literal_def)

lemma compile_username:
  "re_compile username_pattern =
     Inr (Seq At_Beginning
           (Seq (In False [(CHR ''a'', CHR ''z''), (CHR ''A'', CHR ''Z''), (CHR ''0'', CHR ''9'')])
           (Seq (Max_Repeat 0 (Some 1) (Subpattern
                  (Seq (Max_Repeat 0 (Some 37)
                         (In False [(CHR ''a'', CHR ''z''), (CHR ''A'', CHR ''Z''),
                                    (CHR ''0'', CHR ''9''), (CHR ''-'', CHR ''-'')]))
                       (In False [(CHR ''a'', CHR ''z''), (CHR ''A'', CHR ''Z''),
                                  (CHR ''0'', CHR ''9'')]))))
            At_End)))"
  by (simp add: username_pattern_def compile_defs)

lemma compile_bot:
  "re_compile bot_pattern =
     Inr (Seq At_Beginning
           (Seq (In False [(CHR ''a'', CHR ''z''), (CHR ''A'', CHR ''Z''), (CHR ''0'', CHR ''9'')])
           (Seq (Max_Repeat 0 (Some 1) (Subpattern
                  (Seq (Max_Repeat 0 (Some 37)
                         (In False [(CHR ''a'', CHR ''z''), (CHR ''A'', CHR ''Z''),
                                    (CHR ''0'', CHR ''9''), (CHR ''-'', CHR ''-'')]))
                       (In False [(CHR ''a'', CHR ''z''), (CHR ''A'', CHR ''Z''),
                                  (CHR ''0'', CHR ''9'')]))))
           (Seq (literal (CHR ''['')) (Seq (literal (CHR ''b'')) (Seq (literal (CHR ''o''))
           (Seq (literal (CHR ''t'')) (Seq (literal (CHR '']'')) At_End))))))))"
  by (simp add: bot_pattern_def compile_defs literal_def)

lemma compile_app_id:
  "re_compile app_id_pattern = Inr (Seq At_Beginning (Seq (Max_Repeat 1 None digit) At_End))"
  by (simp add: app_id_pattern_def compile_defs digit_def)

lemma issue_number_examples:
  "re_compile issue_number_pattern = Inr r \<Longrightarrow>
     list_all (re_match r) issue_number_valid \<and>
     list_all (\<lambda>s. \<not> re_match r s) issue_number_invalid"
  unfolding compile_issue_number by (elim Inr_inject[elim_format], hypsubst) code_simp

lemma username_examples:
  "re_compile username_pattern = Inr r \<Longrightarrow>
     list_all (re_match r) username_valid \<and> list_all (\<lambda>s. \<not> re_match r s) username_invalid"
  unfolding compile_username by (elim Inr_inject[elim_format], hypsubst) code_simp

lemma bot_examples:
  "re_compile bot_pattern = Inr r \<Longrightarrow>
     list_all (re_match r) bot_valid \<and> list_all (\<lambda>s. \<not> re_match r s) bot_invalid"
  unfolding compile_bot by (elim Inr_inject[elim_format], hypsubst) code_simp

lemma app_id_examples:
  "re_compile app_id_pattern = Inr r \<Longrightarrow>
     list_all (re_match r) app_id_valid \<and> list_all (\<lambda>s. \<not> re_match r s) app_id_invalid"
  unfolding compile_app_id by (elim Inr_inject[elim_format], hypsubst) code_simp

section \<open>The exit status of \<^verbatim>\<open>main\<close>\<close>

lemma main_with_exit:
  assumes "\<And>out. snd (tp ''Issue Number Pattern'' issue_number_pattern
                      issue_number_valid issue_number_invalid out) = Inr b1"
    and "\<And>out. snd (tp ''GitHub Username Pattern'' username_pattern
                      username_valid username_invalid out) = Inr b2"
    and "\<And>out. snd (tp ''Bot Username Pattern'' bot_pattern bot_valid bot_invalid out) = Inr b3"
    and "\<And>out. snd (tp ''GitHub App ID Pattern'' app_id_pattern
                      app_id_valid app_id_invalid out) = Inr b4"
  shows "snd (main_with tp out) = Inr (if b1 \<and> b2 \<and> b3 \<and> b4 then 0 else 1)"
  unfolding main_with_result[of tp b1 b2 b3 b4 out, OF assms] Let_def by simp

lemma case_results:
  "snd (test_pattern ''Issue Number Pattern'' issue_number_pattern
          issue_number_valid issue_number_invalid out) = Inr True"
  "snd (test_pattern ''GitHub Username Pattern'' username_pattern
          username_valid username_invalid out) = Inr True"
  "snd (test_pattern ''Bot Username Pattern'' bot_pattern bot_valid bot_invalid out) = Inr True"
  "snd (test_pattern ''GitHub App ID Pattern'' app_id_pattern
          app_id_valid app_id_invalid out) = Inr True"
  using issue_number_examples[OF compile_issue_number] username_examples[OF compile_username]
    bot_examples[OF compile_bot] app_id_examples[OF compile_app_id]
  by (simp_all add: test_pattern_compiled[OF compile_issue_number]
        test_pattern_compiled[OF compile_username] test_pattern_compiled[OF compile_bot]
        test_pattern_compiled[OF compile_app_id])

lemma main_exit_0: "snd (main out) = Inr 0"
  unfolding main_def
  using main_with_exit[of test_pattern True True True True out, OF case_results]
  by simp





section \<open>Sample evaluations\<close>

lemma app_id_sample:
  "re_match (Seq At_Beginning (Seq (Max_Repeat 1 None digit) At_End)) ''12''"
  "\<not> re_match (Seq At_Beginning (Seq (Max_Repeat 1 None digit) At_End)) ''x''"
  "re_match (Seq At_Beginning (Seq (Max_Repeat 1 None digit) At_End)) ''7''"
  "re_match (Seq At_Beginning (Seq (Max_Repeat 1 None digit) At_End)) ''5''"
  by code_simp+



lemma username_boundary:
  "re_compile username_pattern = Inr r \<Longrightarrow>
     re_match r (''a'' @ replicate 37 (CHR ''1'') @ ''b'') \<and>
     \<not> re_match r (''a'' @ replicate 38 (CHR ''1'') @ ''b'')"
  unfolding compile_username by (elim Inr_inject[elim_format], hypsubst) code_simp

lemma bot_case_sensitive:
  "re_compile bot_pattern = Inr r \<Longrightarrow>
     \<not> re_match r ''copilot[BOT]'' \<and> re_match r ''copilot[bot]''"
  unfolding compile_bot by (elim Inr_inject[elim_format], hypsubst) code_simp

lemma app_id_newline:
  "ends (Seq At_Beginning (Seq (Max_Repeat 1 None digit) At_End)) (''123'' @ [CHR 0x0A]) 0 = [3]"
  by code_simp

section \<open>The claims\<close>

text \<open>
  Claim C1. Running \<^verbatim>\<open>main\<close> on the four shipped pattern cases returns exit code 0,
  whatever was printed before: each of the four patterns compiles, every one of the 20
  valid examples matches its case's pattern from the start of the string and none of the
  34 invalid examples does.
\<close>

theorem shipped_cases_exit_0:
  "snd (main out) = Inr 0 \<and>
   (\<exists>r1 r2 r3 r4.
      re_compile issue_number_pattern = Inr r1 \<and>
      list_all (re_match r1) issue_number_valid \<and>
      list_all (\<lambda>s. \<not> re_match r1 s) issue_number_invalid \<and>
      re_compile username_pattern = Inr r2 \<and>
      list_all (re_match r2) username_valid \<and>
      list_all (\<lambda>s. \<not> re_match r2 s) username_invalid \<and>
      re_compile bot_pattern = Inr r3 \<and>
      list_all (re_match r3) bot_valid \<and>
      list_all (\<lambda>s. \<not> re_match r3 s) bot_invalid \<and>
      re_compile app_id_pattern = Inr r4 \<and>
      list_all (re_match r4) app_id_valid \<and>
      list_all (\<lambda>s. \<not> re_match r4 s) app_id_invalid) \<and>
   length (issue_number_valid @ username_valid @ bot_valid @ app_id_valid) = 20 \<and>
   length (issue_number_invalid @ username_invalid @ bot_invalid @ app_id_invalid) = 34"
proof (intro conjI)
  show "snd (main out) = Inr 0" by (rule main_exit_0)
  show "\<exists>r1 r2 r3 r4.
      re_compile issue_number_pattern = Inr r1 \<and>
      list_all (re_match r1) issue_number_valid \<and>
      list_all (\<lambda>s. \<not> re_match r1 s) issue_number_invalid \<and>
      re_compile username_pattern = Inr r2 \<and>
      list_all (re_match r2) username_valid \<and>
      list_all (\<lambda>s. \<not> re_match r2 s) username_invalid \<and>
      re_compile bot_pattern = Inr r3 \<and>
      list_all (re_match r3) bot_valid \<and>
      list_all (\<lambda>s. \<not> re_match r3 s) bot_invalid \<and>
      re_compile app_id_pattern = Inr r4 \<and>
      list_all (re_match r4) app_id_valid \<and>
      list_all (\<lambda>s. \<not> re_match r4 s) app_id_invalid"
    using compile_issue_number issue_number_examples[OF compile_issue_number]
      compile_username username_examples[OF compile_username]
      compile_bot bot_examples[OF compile_bot]
      compile_app_id app_id_examples[OF compile_app_id]
    by blast
  show "length (issue_number_valid @ username_valid @ bot_valid @ app_id_valid) = 20"
    by (simp add: issue_number_valid_def username_valid_def bot_valid_def app_id_valid_def)
  show "length (issue_number_invalid @ username_invalid @ bot_invalid @ app_id_invalid) = 34"
    by (simp add: issue_number_invalid_def username_invalid_def bot_invalid_def
          app_id_invalid_def)
qed

text \<open>
  Claim C2. For every case name, every pattern and every pair of example lists,
  \<^verbatim>\<open>test_pattern\<close> returns true if and only if every string of the valid list matches the
  pattern anchored at the start of the string and every string of the invalid list does
  not. The library is a parameter: \<open>compile\<close> is any \<^verbatim>\<open>re.compile\<close> and \<open>match\<close> any
  \<^verbatim>\<open>Pattern.match\<close>, so the statement covers every pattern that the library compiles.
\<close>

theorem test_pattern_true_iff:
  assumes "compile pattern = Inr regex"
  shows "\<exists>result. snd (test_pattern_with compile match name pattern valid invalid out)
                    = Inr result \<and>
           (result \<longleftrightarrow>
              (\<forall>s\<in>set valid. match regex s) \<and> (\<forall>s\<in>set invalid. \<not> match regex s))"
  by (simp add: test_pattern_with_compiled[where compile=compile and pattern=pattern, OF assms]
        list_all_iff)

theorem test_pattern_true_iff_witness:
  "re_compile app_id_pattern = Inr (Seq At_Beginning (Seq (Max_Repeat 1 None digit) At_End)) \<and>
   snd (test_pattern ''App'' app_id_pattern [''12'', ''7''] [''x''] []) = Inr True \<and>
   snd (test_pattern ''App'' app_id_pattern [''12'', ''x''] [] []) = Inr False \<and>
   snd (test_pattern ''App'' app_id_pattern [''12''] [''x'', ''5''] []) = Inr False"
proof (intro conjI)
  note iff = test_pattern_true_iff[where compile=re_compile and match=re_match
      and pattern=app_id_pattern and name="''App''" and out="[]", OF compile_app_id,
      folded test_pattern_def]
  show "re_compile app_id_pattern = Inr (Seq At_Beginning (Seq (Max_Repeat 1 None digit) At_End))"
    by (rule compile_app_id)
  show "snd (test_pattern ''App'' app_id_pattern [''12'', ''7''] [''x''] []) = Inr True"
    using iff[of "[''12'', ''7'']" "[''x'']"] app_id_sample by auto
  show "snd (test_pattern ''App'' app_id_pattern [''12'', ''x''] [] []) = Inr False"
    using iff[of "[''12'', ''x'']" "[]"] app_id_sample by auto
  show "snd (test_pattern ''App'' app_id_pattern [''12''] [''x'', ''5''] []) = Inr False"
    using iff[of "[''12'']" "[''x'', ''5'']"] app_id_sample by auto
qed

text \<open>
  Claim C3. \<^verbatim>\<open>main\<close> calls the evaluator on all four pattern cases, combines the four
  booleans it returns with logical AND and returns 0 when the conjunction is true and 1
  when at least one case returned false. The statement is about the body of \<^verbatim>\<open>main\<close> for
  any evaluator that returns the booleans \<open>b1\<close>, \<open>b2\<close>, \<open>b3\<close>, \<open>b4\<close> on the four cases.
  The four calls are made in order, each on the output that the call before it has left,
  also after a case has returned false: what the evaluator does to the output in each of
  the four calls is part of what \<^verbatim>\<open>main\<close> leaves, followed by the banner that goes with the
  exit status. In the witness the evaluator writes its case name and fails the Bot case.
\<close>

theorem main_exit_status:
  assumes "\<And>out. snd (tp ''Issue Number Pattern'' issue_number_pattern
                      issue_number_valid issue_number_invalid out) = Inr b1"
    and "\<And>out. snd (tp ''GitHub Username Pattern'' username_pattern
                      username_valid username_invalid out) = Inr b2"
    and "\<And>out. snd (tp ''Bot Username Pattern'' bot_pattern bot_valid bot_invalid out) = Inr b3"
    and "\<And>out. snd (tp ''GitHub App ID Pattern'' app_id_pattern
                      app_id_valid app_id_invalid out) = Inr b4"
  shows "main_with tp out =
     (let out2 = print rule60 (print (str ''Issue Template Validation Pattern Tests'') out);
          out3 = fst (tp ''Issue Number Pattern'' issue_number_pattern
                        issue_number_valid issue_number_invalid out2);
          out4 = fst (tp ''GitHub Username Pattern'' username_pattern
                        username_valid username_invalid out3);
          out5 = fst (tp ''Bot Username Pattern'' bot_pattern bot_valid bot_invalid out4);
          out6 = fst (tp ''GitHub App ID Pattern'' app_id_pattern
                        app_id_valid app_id_invalid out5);
          out7 = print ([10] @ rule60) out6
      in if b1 \<and> b2 \<and> b3 \<and> b4
         then (print rule60 (print ([check_mark] @ str '' ALL TESTS PASSED'') out7), Inr 0)
         else (print rule60 (print ([ballot_x] @ str '' SOME TESTS FAILED'') out7), Inr 1))"
  by (rule main_with_result[OF assms])

theorem main_exit_status_witness:
  "snd (main []) = Inr 0 \<and>
   main_with (\<lambda>name pattern valid invalid out.
                (print (str name) out, Inr (name \<noteq> ''Bot Username Pattern''))) [] =
     (print rule60 (print ([ballot_x] @ str '' SOME TESTS FAILED'')
        (print ([10] @ rule60)
          (print (str ''GitHub App ID Pattern'')
            (print (str ''Bot Username Pattern'')
              (print (str ''GitHub Username Pattern'')
                (print (str ''Issue Number Pattern'')
                  (print rule60
                    (print (str ''Issue Template Validation Pattern Tests'') [])))))))),
      Inr 1)"
proof
  show "snd (main []) = Inr 0"
    unfolding main_def
    using main_exit_status[of test_pattern True True True True "[]", OF case_results]
    by (simp add: Let_def)
  show "main_with (\<lambda>name pattern valid invalid out.
                (print (str name) out, Inr (name \<noteq> ''Bot Username Pattern''))) [] =
     (print rule60 (print ([ballot_x] @ str '' SOME TESTS FAILED'')
        (print ([10] @ rule60)
          (print (str ''GitHub App ID Pattern'')
            (print (str ''Bot Username Pattern'')
              (print (str ''GitHub Username Pattern'')
                (print (str ''Issue Number Pattern'')
                  (print rule60
                    (print (str ''Issue Template Validation Pattern Tests'') [])))))))),
      Inr 1)"
    using main_exit_status[of "\<lambda>name pattern valid invalid out.
                (print (str name) out, Inr (name \<noteq> ''Bot Username Pattern''))"
              True True False True "[]"]
    by (simp add: Let_def)
qed



text \<open>
  Claim C5. For the GitHub Username pattern, the 39-character string of \<^verbatim>\<open>a\<close>, 37 times
  \<^verbatim>\<open>1\<close> and \<^verbatim>\<open>b\<close> matches, and the 40-character string of \<^verbatim>\<open>a\<close>, 38 times \<^verbatim>\<open>1\<close> and
  \<^verbatim>\<open>b\<close> does not.
\<close>

theorem username_length_boundary:
  "length (''a'' @ replicate 37 (CHR ''1'') @ ''b'') = 39 \<and>
   length (''a'' @ replicate 38 (CHR ''1'') @ ''b'') = 40 \<and>
   (\<exists>r. re_compile username_pattern = Inr r \<and>
        re_match r (''a'' @ replicate 37 (CHR ''1'') @ ''b'') \<and>
        \<not> re_match r (''a'' @ replicate 38 (CHR ''1'') @ ''b'')) \<and>
   snd (test_pattern name username_pattern
          [''a'' @ replicate 37 (CHR ''1'') @ ''b'']
          [''a'' @ replicate 38 (CHR ''1'') @ ''b''] out) = Inr True"
proof (intro conjI)
  show "length (''a'' @ replicate 37 (CHR ''1'') @ ''b'') = 39" by simp
  show "length (''a'' @ replicate 38 (CHR ''1'') @ ''b'') = 40" by simp
  show "\<exists>r. re_compile username_pattern = Inr r \<and>
        re_match r (''a'' @ replicate 37 (CHR ''1'') @ ''b'') \<and>
        \<not> re_match r (''a'' @ replicate 38 (CHR ''1'') @ ''b'')"
    using compile_username username_boundary[OF compile_username] by blast
  show "snd (test_pattern name username_pattern
          [''a'' @ replicate 37 (CHR ''1'') @ ''b'']
          [''a'' @ replicate 38 (CHR ''1'') @ ''b''] out) = Inr True"
    using username_boundary[OF compile_username]
    by (simp add: test_pattern_compiled[OF compile_username])
qed

text \<open>
  Claim C6. The Bot Username pattern does not match \<^verbatim>\<open>copilot[BOT]\<close>, while it matches
  \<^verbatim>\<open>copilot[bot]\<close>: the suffix \<^verbatim>\<open>[bot]\<close> is matched case-sensitively.
\<close>

theorem bot_suffix_case_sensitive:
  "(\<exists>r. re_compile bot_pattern = Inr r \<and>
        \<not> re_match r ''copilot[BOT]'' \<and> re_match r ''copilot[bot]'') \<and>
   snd (test_pattern name bot_pattern [''copilot[bot]''] [''copilot[BOT]''] out) = Inr True \<and>
   snd (test_pattern name bot_pattern [''copilot[BOT]''] [] out) = Inr False"
proof (intro conjI)
  show "\<exists>r. re_compile bot_pattern = Inr r \<and>
        \<not> re_match r ''copilot[BOT]'' \<and> re_match r ''copilot[bot]''"
    using compile_bot bot_case_sensitive[OF compile_bot] by blast
  show "snd (test_pattern name bot_pattern [''copilot[bot]''] [''copilot[BOT]''] out) = Inr True"
    using bot_case_sensitive[OF compile_bot] by (simp add: test_pattern_compiled[OF compile_bot])
  show "snd (test_pattern name bot_pattern [''copilot[BOT]''] [] out) = Inr False"
    using bot_case_sensitive[OF compile_bot] by (simp add: test_pattern_compiled[OF compile_bot])
qed

text \<open>
  Claim C7. A mismatched example never aborts \<^verbatim>\<open>test_pattern\<close>. For every name, every
  pattern that the library compiles and every pair of example lists, the call returns
  normally with a boolean, which is false exactly when some example mismatched, and what
  it has printed is the report with one line for every example of both lists, in order,
  whether or not an earlier example failed. The library is a parameter, as in C2.
\<close>

theorem mismatch_never_aborts:
  assumes "compile pattern = Inr regex"
  shows "test_pattern_with compile match name pattern valid invalid out =
           (out @ expected_report (match regex) name pattern valid invalid,
            Inr (list_all (match regex) valid \<and>
                 list_all (\<lambda>s. \<not> match regex s) invalid))"
  by (rule test_pattern_with_compiled[where compile=compile and pattern=pattern, OF assms])

theorem mismatch_never_aborts_witness:
  "re_compile app_id_pattern = Inr (Seq At_Beginning (Seq (Max_Repeat 1 None digit) At_End)) \<and>
   test_pattern ''App'' app_id_pattern [''12'', ''x'', ''7''] [''5'', ''x''] [] =
     (report_header ''App'' app_id_pattern
        @ [10, check_mark] @ str '' Valid inputs (should match):'' @ [10]
        @ valid_pass ''12'' @ [10] @ valid_fail ''x'' @ [10] @ valid_pass ''7'' @ [10]
        @ [10, ballot_x] @ str '' Invalid inputs (should NOT match):'' @ [10]
        @ invalid_fail ''5'' @ [10] @ invalid_pass ''x'' @ [10],
      Inr False)"
proof
  show "re_compile app_id_pattern = Inr (Seq At_Beginning (Seq (Max_Repeat 1 None digit) At_End))"
    by (rule compile_app_id)
  show "test_pattern ''App'' app_id_pattern [''12'', ''x'', ''7''] [''5'', ''x''] [] =
     (report_header ''App'' app_id_pattern
        @ [10, check_mark] @ str '' Valid inputs (should match):'' @ [10]
        @ valid_pass ''12'' @ [10] @ valid_fail ''x'' @ [10] @ valid_pass ''7'' @ [10]
        @ [10, ballot_x] @ str '' Invalid inputs (should NOT match):'' @ [10]
        @ invalid_fail ''5'' @ [10] @ invalid_pass ''x'' @ [10],
      Inr False)"
    unfolding test_pattern_def
      mismatch_never_aborts[where compile=re_compile and pattern=app_id_pattern,
        OF compile_app_id]
    using app_id_sample
    by (simp add: expected_report_def valid_line_def invalid_line_def)
qed


text \<open>
  Claim C9. \<^verbatim>\<open>$\<close> also matches just before a newline that ends the string: against the
  App ID pattern the 4-character string \<^verbatim>\<open>123\<close> followed by a newline is counted as
  matching by \<^verbatim>\<open>test_pattern\<close>, although the only match from position 0 ends at position 3
  and the pattern does not match the whole string.
\<close>

theorem dollar_before_trailing_newline:
  "re_compile app_id_pattern = Inr (Seq At_Beginning (Seq (Max_Repeat 1 None digit) At_End)) \<and>
   snd (test_pattern name app_id_pattern [''123'' @ [CHR 0x0A]] [] out) = Inr True \<and>
   ends (Seq At_Beginning (Seq (Max_Repeat 1 None digit) At_End)) (''123'' @ [CHR 0x0A]) 0 = [3] \<and>
   length (''123'' @ [CHR 0x0A]) = 4 \<and>
   \<not> span (Seq At_Beginning (Seq (Max_Repeat 1 None digit) At_End))
         (''123'' @ [CHR 0x0A]) 0 (length (''123'' @ [CHR 0x0A]))"
proof (intro conjI)
  let ?r = "Seq At_Beginning (Seq (Max_Repeat 1 None digit) At_End)"
  let ?s = "''123'' @ [CHR 0x0A]"
  show "re_compile app_id_pattern = Inr ?r" by (rule compile_app_id)
  show e: "ends ?r ?s 0 = [3]" by (rule app_id_newline)
  show "length ?s = 4" by simp
  from e have "re_match ?r ?s" by (simp add: re_match_def)
  then show "snd (test_pattern name app_id_pattern [?s] [] out) = Inr True"
    by (simp add: test_pattern_compiled[OF compile_app_id])
  have "(length ?s \<in> set (ends ?r ?s 0)) = span ?r ?s 0 (length ?s)"
    by (rule ends_span) simp
  with e show "\<not> span ?r ?s 0 (length ?s)" by simp
qed

text \<open>
  Claim C10. The name argument does not influence the result: two calls of
  \<^verbatim>\<open>test_pattern\<close> that differ only in the name return the same boolean (or raise the
  same exception).
\<close>

theorem name_does_not_change_result:
  "snd (test_pattern name1 pattern valid invalid out) =
   snd (test_pattern name2 pattern valid invalid out)"
proof (cases "re_compile pattern")
  case (Inl e)
  then show ?thesis by (simp add: test_pattern_rejected)
next
  case (Inr regex)
  then show ?thesis by (simp add: test_pattern_compiled)
qed

end
